theory Spec2Isabelle
  imports Main "HOL-Library.FSet" "HOL-Library.Signed_Division"
begin

section \<open>Conventions\<close>

text \<open>
  The development embeds the consensus core of the repository: \<^verbatim>\<open>block.cpp\<close>,
  \<^verbatim>\<open>streamlet_node.cpp\<close> and \<^verbatim>\<open>streamlet_protocol.cpp\<close>.

  \<^item> A C++ \<^verbatim>\<open>int\<close> is an \<^typ>\<open>int\<close>; \<^verbatim>\<open>/\<close> and \<^verbatim>\<open>%\<close> truncate towards zero and are
    written \<open>sdiv\<close> and \<open>smod\<close>. Division by zero, the overflowing \<^verbatim>\<open>INT_MIN % -1\<close>
    and unchecked vector accesses out of range are undefined behaviour and are results
    of their own (\<open>None\<close>, \<open>Inl UndefinedBehaviour\<close>).
  \<^item> A \<^verbatim>\<open>std::shared_ptr<Block>\<close> is a \<^typ>\<open>'a option\<close> where it may be null; blocks are
    immutable after construction, so sharing is not observable and a block is a value.
  \<^item> \<^verbatim>\<open>std::hash<std::string>\<close> belongs to the standard library, not to the repository:
    every operation that builds a block takes it as the parameter \<open>H\<close>. The reading of
    \<^verbatim>\<open>std::chrono::system_clock::now()\<close> taken by a block's constructor is a parameter
    as well (clock ticks, nanoseconds since the Unix epoch).
  \<^item> The other \<^verbatim>\<open>int\<close> arithmetic of the code, \<^verbatim>\<open>(n_nodes_ - 1) / 3\<close> and
    \<^verbatim>\<open>2 * f + 1\<close> in \<^verbatim>\<open>castVote\<close>, stays in the range of \<^verbatim>\<open>int\<close> for every
    replica count but \<^verbatim>\<open>INT_MIN\<close>, where the subtraction overflows (undefined
    behaviour). \<open>castVote\<close> below computes on \<^typ>\<open>int\<close> and describes the code for
    replica counts above \<^verbatim>\<open>INT_MIN\<close> only: what is proved of its threshold assumes
    \<open>INT_MIN < n_nodes\<close>. The sizes cast to \<^verbatim>\<open>int\<close> are sizes of sets of replica ids.
  \<^item> Running out of memory (\<^verbatim>\<open>std::bad_alloc\<close>) depends on the machine and is not
    modelled: nothing below concludes that a large driver can be constructed.
\<close>

section \<open>Text output of numbers\<close>

definition digit_char :: "nat \<Rightarrow> char" where
  "digit_char d = ''0123456789abcdef'' ! (d mod 16)"

text \<open>\<^verbatim>\<open>operator<<\<close> on an unsigned value in decimal and, after \<^verbatim>\<open>std::hex\<close>, in hexadecimal.\<close>

fun show_nat :: "nat \<Rightarrow> string" where
  "show_nat n = (if n < 10 then [digit_char n] else show_nat (n div 10) @ [digit_char (n mod 10)])"

fun show_hex :: "nat \<Rightarrow> string" where
  "show_hex n = (if n < 16 then [digit_char n] else show_hex (n div 16) @ [digit_char (n mod 16)])"

declare show_nat.simps [simp del]
declare show_hex.simps [simp del]

text \<open>\<^verbatim>\<open>operator<<\<close> on a signed value (\<^verbatim>\<open>int\<close>, \<^verbatim>\<open>time_t\<close>).\<close>

definition show_int :: "int \<Rightarrow> string" where
  "show_int i = (if i < 0 then CHR ''-'' # show_nat (nat (- i)) else show_nat (nat i))"

section \<open>Block (\<^verbatim>\<open>block.cpp\<close>)\<close>

record Block =
  getEpoch :: int
  getParentHash :: string
  getTransactions :: "string list"
  getProposerId :: int
  getTimestamp :: int
  getHash :: string

text \<open>\<^verbatim>\<open>system_clock::to_time_t\<close>: whole seconds of a time point, truncated towards zero.\<close>

definition to_time_t :: "int \<Rightarrow> int" where
  "to_time_t ticks = ticks sdiv 1000000000"

text \<open>The string assembled in the first \<^verbatim>\<open>ostringstream\<close> of \<^verbatim>\<open>Block::calculateHash\<close>.\<close>

definition hash_content :: "Block \<Rightarrow> string" where
  "hash_content b =
     foldl (\<lambda>oss tx. oss @ tx @ ''|'')
       (show_int (getEpoch b) @ '':'' @ getParentHash b @ '':'') (getTransactions b)
     @ '':'' @ show_int (getProposerId b)
     @ '':'' @ show_int (to_time_t (getTimestamp b))"

definition calculateHash :: "(string \<Rightarrow> nat) \<Rightarrow> Block \<Rightarrow> string" where
  "calculateHash H b = show_hex (H (hash_content b))"

text \<open>
  The constructor: the members are initialised in the order of the initialiser list, the
  hash last, from the members already set; \<open>now\<close> is the clock reading it takes.
\<close>

definition Block_create ::
  "(string \<Rightarrow> nat) \<Rightarrow> int \<Rightarrow> int \<Rightarrow> string \<Rightarrow> string list \<Rightarrow> int \<Rightarrow> Block" where
  "Block_create H now epoch parent_hash transactions proposer_id =
     (let b = \<lparr> getEpoch = epoch, getParentHash = parent_hash,
                getTransactions = transactions, getProposerId = proposer_id,
                getTimestamp = now, getHash = [] \<rparr>
      in b \<lparr> getHash := calculateHash H b \<rparr>)"

definition isValid :: "Block \<Rightarrow> bool" where
  "isValid b \<longleftrightarrow> getHash b \<noteq> [] \<and> getEpoch b \<ge> 0 \<and> getProposerId b \<ge> 0"

text \<open>
  One possible \<^verbatim>\<open>std::hash<std::string>\<close> (a 64-bit multiplicative string hash), used
  where a theorem is evaluated on concrete blocks.
\<close>

definition example_hash :: "string \<Rightarrow> nat" where
  "example_hash s = foldl (\<lambda>h c. (h * 33 + of_char c) mod 18446744073709551616) 5381 s"

section \<open>StreamletNode (\<^verbatim>\<open>streamlet_node.cpp\<close>)\<close>

record StreamletNode =
  node_id :: int
  n_nodes :: int
  blockchain :: "Block list"
  block_by_hash :: "string \<rightharpoonup> Block"
  votes_by_epoch :: "int \<rightharpoonup> (string \<rightharpoonup> int fset)"
  notarized_blocks :: "string set"
  finalized_blocks :: "Block list"

definition genesis_block :: "(string \<Rightarrow> nat) \<Rightarrow> int \<Rightarrow> Block" where
  "genesis_block H now = Block_create H now 0 ''GENESIS'' [''genesis''] (- 1)"

definition createGenesisBlock :: "(string \<Rightarrow> nat) \<Rightarrow> int \<Rightarrow> StreamletNode \<Rightarrow> StreamletNode" where
  "createGenesisBlock H now s =
     (let genesis = genesis_block H now
      in s \<lparr> blockchain := blockchain s @ [genesis],
             block_by_hash := (block_by_hash s)(getHash genesis \<mapsto> genesis),
             notarized_blocks := insert (getHash genesis) (notarized_blocks s) \<rparr>)"

text \<open>The constructor \<^verbatim>\<open>StreamletNode(node_id, n_nodes)\<close>: empty containers, then genesis.\<close>

definition StreamletNode_init :: "(string \<Rightarrow> nat) \<Rightarrow> int \<Rightarrow> int \<Rightarrow> int \<Rightarrow> StreamletNode" where
  "StreamletNode_init H now nid n =
     createGenesisBlock H now
       \<lparr> node_id = nid, n_nodes = n, blockchain = [], block_by_hash = Map.empty,
         votes_by_epoch = Map.empty, notarized_blocks = {}, finalized_blocks = [] \<rparr>"

definition INT_MIN :: int where
  "INT_MIN = - 2147483648"

text \<open>\<^verbatim>\<open>epoch % n_nodes_\<close>: undefined for a zero divisor and for \<^verbatim>\<open>INT_MIN % -1\<close>.\<close>

definition getEpochLeader :: "StreamletNode \<Rightarrow> int \<Rightarrow> int option" where
  "getEpochLeader s epoch =
     (if n_nodes s = 0 \<or> (epoch = INT_MIN \<and> n_nodes s = - 1) then None
      else Some (epoch smod n_nodes s))"

definition findLongestNotarizedChain :: "StreamletNode \<Rightarrow> Block option" where
  "findLongestNotarizedChain s = (if blockchain s = [] then None else Some (last (blockchain s)))"

definition validateBlock :: "StreamletNode \<Rightarrow> Block option \<Rightarrow> int \<Rightarrow> bool" where
  "validateBlock s block proposer_id =
     (case block of
        None \<Rightarrow> False
      | Some b \<Rightarrow>
          if \<not> isValid b then False
          else if proposer_id \<noteq> getProposerId b then False
          else True)"

definition notarizeBlock :: "string \<Rightarrow> StreamletNode \<Rightarrow> StreamletNode" where
  "notarizeBlock block_hash s = s \<lparr> notarized_blocks := insert block_hash (notarized_blocks s) \<rparr>"

definition checkFinalization :: "StreamletNode \<Rightarrow> StreamletNode" where
  "checkFinalization s =
     (if length (blockchain s) < 2 then s
      else
        let last_b = blockchain s ! (length (blockchain s) - 1);
            prev = blockchain s ! (length (blockchain s) - 2)
        in if getHash last_b \<in> notarized_blocks s \<and> getHash prev \<in> notarized_blocks s
           then s \<lparr> finalized_blocks := finalized_blocks s @ [prev] \<rparr>
           else s)"

text \<open>
  \<^verbatim>\<open>votes_by_epoch_[epoch][block_hash]\<close>: \<^verbatim>\<open>operator[]\<close> of the two nested maps, which
  reads an absent key as an empty value (and creates the entry when written through).
\<close>

definition votes_at :: "StreamletNode \<Rightarrow> int \<Rightarrow> string \<Rightarrow> int fset" where
  "votes_at s epoch block_hash =
     (case votes_by_epoch s epoch of
        None \<Rightarrow> {||}
      | Some by_hash \<Rightarrow> (case by_hash block_hash of None \<Rightarrow> {||} | Some voters \<Rightarrow> voters))"

definition insert_vote :: "int \<Rightarrow> string \<Rightarrow> StreamletNode \<Rightarrow> StreamletNode" where
  "insert_vote epoch block_hash s =
     (let by_hash = (case votes_by_epoch s epoch of None \<Rightarrow> Map.empty | Some m \<Rightarrow> m)
      in s \<lparr> votes_by_epoch :=
               (votes_by_epoch s)(epoch \<mapsto>
                  by_hash(block_hash \<mapsto> finsert (node_id s) (votes_at s epoch block_hash))) \<rparr>)"

definition castVote :: "string \<Rightarrow> int \<Rightarrow> StreamletNode \<Rightarrow> StreamletNode" where
  "castVote block_hash epoch s =
     (let s1 = insert_vote epoch block_hash s;
          f = (n_nodes s1 - 1) sdiv 3;
          threshold = 2 * f + 1;
          s2 = (if int (fcard (votes_at s1 epoch block_hash)) \<ge> max 1 threshold
                then notarizeBlock block_hash s1 else s1)
      in checkFinalization s2)"

definition receiveProposal :: "Block option \<Rightarrow> int \<Rightarrow> StreamletNode \<Rightarrow> bool \<times> StreamletNode" where
  "receiveProposal block proposer_id s =
     (if \<not> validateBlock s block proposer_id then (False, s)
      else
        case block of
          None \<Rightarrow> (False, s)
        | Some b \<Rightarrow>
            let s1 = s \<lparr> block_by_hash := (block_by_hash s)(getHash b \<mapsto> b) \<rparr>;
                s2 = s1 \<lparr> blockchain := blockchain s1 @ [b] \<rparr>
            in (True, castVote (getHash b) (getEpoch b) s2))"

definition proposeBlock ::
  "(string \<Rightarrow> nat) \<Rightarrow> int \<Rightarrow> int \<Rightarrow> string list \<Rightarrow> StreamletNode \<Rightarrow> Block \<times> StreamletNode" where
  "proposeBlock H now epoch transactions s =
     (let head = findLongestNotarizedChain s;
          parent = (case head of Some h \<Rightarrow> getHash h | None \<Rightarrow> ''GENESIS'');
          block = Block_create H now epoch parent transactions (node_id s)
      in (block, snd (receiveProposal (Some block) (node_id s) s)))"

section \<open>StreamletProtocol (\<^verbatim>\<open>streamlet_protocol.cpp\<close>)\<close>

datatype error = LengthError | UndefinedBehaviour

record StreamletProtocol =
  proto_n_nodes :: int
  nodes :: "StreamletNode list"

text \<open>
  The constructor. \<^verbatim>\<open>nodes_.reserve(n_nodes_)\<close> converts the \<^verbatim>\<open>int\<close> to the unsigned
  \<^verbatim>\<open>size_type\<close>: a negative count becomes a size above \<^verbatim>\<open>max_size()\<close> and \<^verbatim>\<open>reserve\<close>
  throws \<^verbatim>\<open>std::length_error\<close>. Otherwise the loop pushes replica \<open>i\<close> for
  \<open>i = 0, ..., n - 1\<close>; \<open>now i\<close> is the clock reading taken by replica \<open>i\<close>'s genesis block.
\<close>

definition StreamletProtocol_init ::
  "(string \<Rightarrow> nat) \<Rightarrow> (int \<Rightarrow> int) \<Rightarrow> int \<Rightarrow> error + StreamletProtocol" where
  "StreamletProtocol_init H now n =
     (if n < 0 then Inl LengthError
      else Inr \<lparr> proto_n_nodes = n,
                 nodes = map (\<lambda>i. StreamletNode_init H (now i) i n) [0..n - 1] \<rparr>)"

text \<open>
  The delivery loop of \<^verbatim>\<open>runEpoch\<close> over the indices \<open>0, ..., n_nodes_ - 1\<close>;
  \<^verbatim>\<open>nodes_[i]\<close> is unchecked.
\<close>

fun deliver :: "Block \<Rightarrow> int \<Rightarrow> int list \<Rightarrow> StreamletNode list \<Rightarrow> error + StreamletNode list" where
  "deliver proposal leader [] ns = Inr ns"
| "deliver proposal leader (i # is) ns =
     (if i = leader then deliver proposal leader is ns
      else if i < 0 \<or> int (length ns) \<le> i then Inl UndefinedBehaviour
      else deliver proposal leader is
             (ns [nat i := snd (receiveProposal (Some proposal) leader (ns ! nat i))]))"

definition runEpoch ::
  "(string \<Rightarrow> nat) \<Rightarrow> int \<Rightarrow> int \<Rightarrow> string list \<Rightarrow> StreamletProtocol \<Rightarrow> error + StreamletProtocol" where
  "runEpoch H now epoch transactions p =
     (case nodes p of
        [] \<Rightarrow> Inl UndefinedBehaviour
      | front # _ \<Rightarrow>
          (case getEpochLeader front epoch of
             None \<Rightarrow> Inl UndefinedBehaviour
           | Some leader \<Rightarrow>
               if leader < 0 \<or> int (length (nodes p)) \<le> leader then Inl UndefinedBehaviour
               else
                 let (proposal, leaderNode) =
                       proposeBlock H now epoch transactions (nodes p ! nat leader);
                     ns = (nodes p) [nat leader := leaderNode]
                 in (case deliver proposal leader [0..proto_n_nodes p - 1] ns of
                       Inl e \<Rightarrow> Inl e
                     | Inr ns' \<Rightarrow> Inr (p \<lparr> nodes := ns' \<rparr>))))"

text \<open>A sequence of \<^verbatim>\<open>runEpoch\<close> calls, each with its clock reading, epoch and transactions.\<close>

fun runEpochs ::
  "(string \<Rightarrow> nat) \<Rightarrow> (int \<times> int \<times> string list) list \<Rightarrow> StreamletProtocol
     \<Rightarrow> error + StreamletProtocol" where
  "runEpochs H [] p = Inr p"
| "runEpochs H ((now, epoch, transactions) # calls) p =
     (case runEpoch H now epoch transactions p of
        Inl e \<Rightarrow> Inl e
      | Inr p' \<Rightarrow> runEpochs H calls p')"

section \<open>Sequences of public operations on one replica\<close>

datatype node_op =
    ProposeBlock int int "string list"
  | ReceiveProposal "Block option" int
  | CastVote string int
  | CheckFinalization

fun apply_op :: "(string \<Rightarrow> nat) \<Rightarrow> node_op \<Rightarrow> StreamletNode \<Rightarrow> StreamletNode" where
  "apply_op H (ProposeBlock now epoch transactions) s = snd (proposeBlock H now epoch transactions s)"
| "apply_op H (ReceiveProposal block proposer_id) s = snd (receiveProposal block proposer_id s)"
| "apply_op H (CastVote block_hash epoch) s = castVote block_hash epoch s"
| "apply_op H CheckFinalization s = checkFinalization s"

fun apply_ops :: "(string \<Rightarrow> nat) \<Rightarrow> node_op list \<Rightarrow> StreamletNode \<Rightarrow> StreamletNode" where
  "apply_ops H [] s = s"
| "apply_ops H (x # xs) s = apply_ops H xs (apply_op H x s)"

section \<open>Concrete inputs\<close>

text \<open>Clock readings: replica \<open>i\<close> is constructed \<open>i\<close> microseconds after the first.\<close>

definition example_clock :: "int \<Rightarrow> int" where
  "example_clock i = 1700000000000000000 + 1000 * i"

text \<open>A fresh replica of a four-replica and of a one-replica protocol.\<close>

definition example_node :: StreamletNode where
  "example_node = StreamletNode_init example_hash 1700000000000000000 0 4"

definition example_solo_fresh :: StreamletNode where
  "example_solo_fresh = StreamletNode_init example_hash 1700000000000000000 0 1"

text \<open>The only replica of a one-replica protocol after it proposed in epoch 1.\<close>

definition example_block :: Block where
  "example_block = fst (proposeBlock example_hash 1700000001000000000 1 [''tx_1_0''] example_solo_fresh)"

definition example_solo :: StreamletNode where
  "example_solo = snd (proposeBlock example_hash 1700000001000000000 1 [''tx_1_0''] example_solo_fresh)"

text \<open>A four-replica protocol, the block proposed in its epoch 1, and the protocol after it.\<close>

definition example_protocol :: StreamletProtocol where
  "example_protocol =
     \<lparr> proto_n_nodes = 4,
       nodes = map (\<lambda>i. StreamletNode_init example_hash (example_clock i) i 4) [0..3] \<rparr>"





section \<open>Invariants\<close>

text \<open>
  What a replica of a protocol with at least four replicas keeps true: it is the only
  voter in its vote sets, its notarized set holds the genesis hash alone, and a block was
  finalized only if an adopted block has the hash of the genesis block \<open>g\<close>.
\<close>

definition node_inv :: "int \<Rightarrow> int \<Rightarrow> Block \<Rightarrow> StreamletNode \<Rightarrow> bool" where
  "node_inv n i g s \<longleftrightarrow>
     node_id s = i \<and> n_nodes s = n \<and> blockchain s \<noteq> [] \<and> hd (blockchain s) = g
     \<and> (\<forall>e h. votes_at s e h |\<subseteq>| {|i|})
     \<and> notarized_blocks s = {getHash g}
     \<and> (finalized_blocks s \<noteq> [] \<longrightarrow> (\<exists>b \<in> set (tl (blockchain s)). getHash b = getHash g))"

definition proto_inv :: "(string \<Rightarrow> nat) \<Rightarrow> (int \<Rightarrow> int) \<Rightarrow> int \<Rightarrow> StreamletProtocol \<Rightarrow> bool" where
  "proto_inv H now n p \<longleftrightarrow>
     proto_n_nodes p = n \<and> int (length (nodes p)) = n
     \<and> (\<forall>k < length (nodes p).
           node_inv n (int k) (genesis_block H (now (int k))) (nodes p ! k))"

text \<open>
  What every replica keeps true, whatever the replica count: a notarized hash is the
  genesis hash \<open>g\<close> or has a vote set that reached the threshold.
\<close>

definition quorum_inv :: "string \<Rightarrow> StreamletNode \<Rightarrow> bool" where
  "quorum_inv g s \<longleftrightarrow>
     (\<forall>h \<in> notarized_blocks s.
        h = g \<or> (\<exists>e. max 1 (2 * ((n_nodes s - 1) sdiv 3) + 1) \<le> int (fcard (votes_at s e h))))"

section \<open>Basic facts\<close>

lemma show_hex_nonempty: "show_hex n \<noteq> []"
  by (subst show_hex.simps) simp

lemma foldl_transactions:
  "foldl (\<lambda>oss tx. oss @ tx @ ''|'') acc txs = acc @ concat (map (\<lambda>tx. tx @ ''|'') txs)"
  by (induction txs arbitrary: acc) simp_all

lemma Block_create_fields:
  "getEpoch (Block_create H now e p txs pid) = e"
  "getParentHash (Block_create H now e p txs pid) = p"
  "getTransactions (Block_create H now e p txs pid) = txs"
  "getProposerId (Block_create H now e p txs pid) = pid"
  "getTimestamp (Block_create H now e p txs pid) = now"
  by (simp_all add: Block_create_def)

lemma getHash_Block_create:
  "getHash (Block_create H now e p txs pid) =
     show_hex (H (show_int e @ '':'' @ p @ '':'' @ concat (map (\<lambda>tx. tx @ ''|'') txs)
                  @ '':'' @ show_int pid @ '':'' @ show_int (to_time_t now)))"
  by (simp add: Block_create_def calculateHash_def hash_content_def foldl_transactions)

lemma digit_char_inj:
  assumes "a < 16" and "b < 16" and "digit_char a = digit_char b"
  shows "a = b"
proof -
  have d: "distinct ''0123456789abcdef''" by simp
  have "''0123456789abcdef'' ! a = ''0123456789abcdef'' ! b"
    using assms by (simp add: digit_char_def)
  then show ?thesis
    using assms(1,2) d by (simp add: nth_eq_iff_index_eq)
qed

lemma digit_char_not_minus: "d < 16 \<Longrightarrow> digit_char d \<noteq> CHR ''-''"
proof -
  assume "d < 16"
  then have "digit_char d \<in> set ''0123456789abcdef''"
    unfolding digit_char_def by (intro nth_mem) simp
  then show ?thesis by auto
qed

lemma length_show_nat: "length (show_nat n) = 1 \<longleftrightarrow> n < 10"
proof (cases "n < 10")
  case True
  then show ?thesis by (subst show_nat.simps) simp
next
  case False
  have "show_nat (n div 10) \<noteq> []" by (subst show_nat.simps) simp
  then show ?thesis
    using False by (subst show_nat.simps) (simp add: Suc_le_eq)
qed

lemma show_nat_inj: "show_nat m = show_nat n \<Longrightarrow> m = n"
proof (induction m arbitrary: n rule: show_nat.induct)
  case (1 m)
  show ?case
  proof (cases "m < 10")
    case True
    then have "n < 10"
      using length_show_nat [of m] length_show_nat [of n] "1.prems" by simp
    then have "[digit_char m] = [digit_char n]"
      using True "1.prems" by (subst (asm) show_nat.simps, subst (asm) (2) show_nat.simps) simp
    then show ?thesis
      using True \<open>n < 10\<close> digit_char_inj [of m n] by simp
  next
    case False
    then have n: "\<not> n < 10"
      using length_show_nat [of m] length_show_nat [of n] "1.prems" by simp
    have "show_nat (m div 10) @ [digit_char (m mod 10)]
            = show_nat (n div 10) @ [digit_char (n mod 10)]"
      using "1.prems" False n show_nat.simps [of m] show_nat.simps [of n] by simp
    then have a: "show_nat (m div 10) = show_nat (n div 10)"
      and b: "digit_char (m mod 10) = digit_char (n mod 10)"
      by simp_all
    have "m div 10 = n div 10"
      using "1.IH" [OF False a] .
    moreover have "m mod 10 = n mod 10"
      using digit_char_inj [OF _ _ b] by simp
    ultimately show ?thesis
      by (metis div_mult_mod_eq)
  qed
qed

lemma length_show_hex: "length (show_hex n) = 1 \<longleftrightarrow> n < 16"
proof (cases "n < 16")
  case True
  then show ?thesis by (subst show_hex.simps) simp
next
  case False
  have "show_hex (n div 16) \<noteq> []" by (subst show_hex.simps) simp
  then show ?thesis
    using False by (subst show_hex.simps) (simp add: Suc_le_eq)
qed

lemma show_hex_inj: "show_hex m = show_hex n \<Longrightarrow> m = n"
proof (induction m arbitrary: n rule: show_hex.induct)
  case (1 m)
  show ?case
  proof (cases "m < 16")
    case True
    then have "n < 16"
      using length_show_hex [of m] length_show_hex [of n] "1.prems" by simp
    then have "[digit_char m] = [digit_char n]"
      using True "1.prems" show_hex.simps [of m] show_hex.simps [of n] by simp
    then show ?thesis
      using True \<open>n < 16\<close> digit_char_inj [of m n] by simp
  next
    case False
    then have n: "\<not> n < 16"
      using length_show_hex [of m] length_show_hex [of n] "1.prems" by simp
    have "show_hex (m div 16) @ [digit_char (m mod 16)]
            = show_hex (n div 16) @ [digit_char (n mod 16)]"
      using "1.prems" False n show_hex.simps [of m] show_hex.simps [of n] by simp
    then have a: "show_hex (m div 16) = show_hex (n div 16)"
      and b: "digit_char (m mod 16) = digit_char (n mod 16)"
      by simp_all
    have "m div 16 = n div 16"
      using "1.IH" [OF False a] .
    moreover have "m mod 16 = n mod 16"
      using digit_char_inj [OF _ _ b] by simp
    ultimately show ?thesis
      by (metis div_mult_mod_eq)
  qed
qed

lemma show_nat_no_minus: "CHR ''-'' \<notin> set (show_nat n)"
proof (induction n rule: show_nat.induct)
  case (1 n)
  show ?case
  proof (cases "n < 10")
    case True
    then show ?thesis
      using digit_char_not_minus [of n] by (subst show_nat.simps) auto
  next
    case False
    have "n mod 10 < 16"
      using mod_less_divisor [of 10 n] by linarith
    then have "digit_char (n mod 10) \<noteq> CHR ''-''"
      by (rule digit_char_not_minus)
    then show ?thesis
      using "1.IH" False
      by (subst show_nat.simps) auto
  qed
qed

lemma show_int_inj: "show_int i = show_int j \<Longrightarrow> i = j"
proof -
  assume a: "show_int i = show_int j"
  have ne: "show_nat k \<noteq> CHR ''-'' # xs" "CHR ''-'' # xs \<noteq> show_nat k" for k xs
    using show_nat_no_minus [of k] by (metis list.set_intros(1))+
  show ?thesis
  proof (cases "i < 0")
    case True
    then have "j < 0"
      using a ne by (auto simp: show_int_def split: if_splits)
    then have "nat (- i) = nat (- j)"
      using a True show_nat_inj by (simp add: show_int_def)
    then show ?thesis using True \<open>j < 0\<close> by simp
  next
    case False
    then have "\<not> j < 0"
      using a ne by (auto simp: show_int_def split: if_splits)
    then have "nat i = nat j"
      using a False show_nat_inj by (simp add: show_int_def)
    then show ?thesis using False \<open>\<not> j < 0\<close> by simp
  qed
qed

lemma hash_content_Block_create:
  "hash_content (Block_create H now e p txs pid) =
     show_int e @ '':'' @ p @ '':'' @ concat (map (\<lambda>tx. tx @ ''|'') txs)
       @ '':'' @ show_int pid @ '':'' @ show_int (to_time_t now)"
  by (simp add: Block_create_def hash_content_def foldl_transactions)

lemma getHash_calculateHash:
  "getHash (Block_create H now e p txs pid)
     = show_hex (H (hash_content (Block_create H now e p txs pid)))"
  by (simp add: getHash_Block_create hash_content_Block_create)

lemma isValid_Block_create:
  "isValid (Block_create H now e p txs pid) \<longleftrightarrow> 0 \<le> e \<and> 0 \<le> pid"
  by (simp add: isValid_def Block_create_fields getHash_Block_create show_hex_nonempty)

text \<open>
  The code divides with truncation, the specification with \<open>floor\<close>; after \<open>max 1\<close> the
  two thresholds are the same number for every replica count.
\<close>

lemma threshold_floor:
  "max 1 (2 * ((n - 1) sdiv 3) + 1) = max 1 (2 * ((n - 1) div 3) + 1)" for n :: int
proof (cases "1 \<le> n")
  case True
  then have "(n - 1) sdiv 3 = (n - 1) div 3"
    by (auto simp: signed_divide_int_def sgn_if)
  then show ?thesis by simp
next
  case False
  then have "(n - 1) div 3 \<le> 0"
    by arith
  moreover have "(n - 1) sdiv 3 \<le> 0"
    using False by (simp add: signed_divide_int_def sgn_if)
  ultimately show ?thesis by simp
qed

lemma fcard_finsert_pos: "1 \<le> int (fcard (finsert x A))"
proof -
  have "fcard (finsert x A) \<noteq> 0" by simp
  then show ?thesis by linarith
qed

lemma checkFinalization_fields:
  "node_id (checkFinalization s) = node_id s"
  "n_nodes (checkFinalization s) = n_nodes s"
  "blockchain (checkFinalization s) = blockchain s"
  "block_by_hash (checkFinalization s) = block_by_hash s"
  "votes_by_epoch (checkFinalization s) = votes_by_epoch s"
  "notarized_blocks (checkFinalization s) = notarized_blocks s"
  by (simp_all add: checkFinalization_def Let_def)

lemma votes_at_checkFinalization: "votes_at (checkFinalization s) = votes_at s"
  by (intro ext) (simp add: votes_at_def checkFinalization_fields)

lemma votes_at_notarizeBlock: "votes_at (notarizeBlock h s) = votes_at s"
  by (intro ext) (simp add: votes_at_def notarizeBlock_def)

lemma votes_at_insert_vote:
  "votes_at (insert_vote e h s) e' h' =
     (if e' = e \<and> h' = h then finsert (node_id s) (votes_at s e h) else votes_at s e' h')"
  by (simp add: votes_at_def insert_vote_def Let_def split: option.splits)

lemma votes_at_castVote:
  "votes_at (castVote h e s) e' h' =
     (if e' = e \<and> h' = h then finsert (node_id s) (votes_at s e h) else votes_at s e' h')"
  by (simp add: castVote_def Let_def votes_at_checkFinalization votes_at_notarizeBlock
      votes_at_insert_vote)

lemma insert_vote_fields:
  "node_id (insert_vote e h s) = node_id s"
  "n_nodes (insert_vote e h s) = n_nodes s"
  "blockchain (insert_vote e h s) = blockchain s"
  "block_by_hash (insert_vote e h s) = block_by_hash s"
  "notarized_blocks (insert_vote e h s) = notarized_blocks s"
  "finalized_blocks (insert_vote e h s) = finalized_blocks s"
  by (simp_all add: insert_vote_def Let_def)

lemma notarized_castVote:
  "notarized_blocks (castVote h e s) =
     (if max 1 (2 * ((n_nodes s - 1) sdiv 3) + 1)
           \<le> int (fcard (finsert (node_id s) (votes_at s e h)))
      then insert h (notarized_blocks s) else notarized_blocks s)"
  by (simp add: castVote_def Let_def checkFinalization_fields votes_at_insert_vote
      insert_vote_fields notarizeBlock_def)

lemma castVote_fields:
  "node_id (castVote h e s) = node_id s"
  "n_nodes (castVote h e s) = n_nodes s"
  "blockchain (castVote h e s) = blockchain s"
  "block_by_hash (castVote h e s) = block_by_hash s"
  by (simp_all add: castVote_def Let_def checkFinalization_fields insert_vote_fields
      notarizeBlock_def)

lemma StreamletNode_init_fields:
  "node_id (StreamletNode_init H now nid n) = nid"
  "n_nodes (StreamletNode_init H now nid n) = n"
  "blockchain (StreamletNode_init H now nid n) = [genesis_block H now]"
  "block_by_hash (StreamletNode_init H now nid n)
     = [getHash (genesis_block H now) \<mapsto> genesis_block H now]"
  "votes_by_epoch (StreamletNode_init H now nid n) = Map.empty"
  "notarized_blocks (StreamletNode_init H now nid n) = {getHash (genesis_block H now)}"
  "finalized_blocks (StreamletNode_init H now nid n) = []"
  by (simp_all add: StreamletNode_init_def createGenesisBlock_def Let_def)

lemma receiveProposal_accepts:
  "isValid b \<Longrightarrow> proposer_id = getProposerId b \<Longrightarrow>
     receiveProposal (Some b) proposer_id s =
       (True, castVote (getHash b) (getEpoch b)
                (s \<lparr> block_by_hash := (block_by_hash s)(getHash b \<mapsto> b),
                      blockchain := blockchain s @ [b] \<rparr>))"
  by (simp add: receiveProposal_def validateBlock_def Let_def)

lemma votes_at_chain_update:
  "votes_at (s \<lparr> block_by_hash := m, blockchain := c \<rparr>) = votes_at s"
  by (intro ext) (simp add: votes_at_def)

lemma proposeBlock_snd:
  "snd (proposeBlock H now epoch txs s) =
     snd (receiveProposal (Some (fst (proposeBlock H now epoch txs s))) (node_id s) s)"
  by (simp add: proposeBlock_def Let_def)

lemma checkFinalization_last_two:
  "checkFinalization s =
     (if 2 \<le> length (blockchain s)
         \<and> getHash (last (blockchain s)) \<in> notarized_blocks s
         \<and> getHash (last (butlast (blockchain s))) \<in> notarized_blocks s
      then s \<lparr> finalized_blocks := finalized_blocks s @ [last (butlast (blockchain s))] \<rparr>
      else s)"
proof (cases "2 \<le> length (blockchain s)")
  case True
  then have ne: "blockchain s \<noteq> []" "butlast (blockchain s) \<noteq> []"
    by (auto simp: butlast_conv_take)
  have l: "blockchain s ! (length (blockchain s) - 1) = last (blockchain s)"
    using ne by (simp add: last_conv_nth)
  have "last (butlast (blockchain s)) = butlast (blockchain s) ! (length (blockchain s) - 2)"
    using ne by (simp add: last_conv_nth numeral_2_eq_2)
  also have "\<dots> = blockchain s ! (length (blockchain s) - 2)"
    using True by (simp add: nth_butlast)
  finally show ?thesis
    using True l by (simp add: checkFinalization_def Let_def)
next
  case False
  then show ?thesis by (simp add: checkFinalization_def)
qed

lemma finalized_castVote:
  "finalized_blocks (castVote h e s) =
     (if 2 \<le> length (blockchain s)
         \<and> getHash (last (blockchain s)) \<in> notarized_blocks (castVote h e s)
         \<and> getHash (last (butlast (blockchain s))) \<in> notarized_blocks (castVote h e s)
      then finalized_blocks s @ [last (butlast (blockchain s))]
      else finalized_blocks s)"
proof -
  define s2 where "s2 =
    (if max 1 (2 * ((n_nodes (insert_vote e h s) - 1) sdiv 3) + 1)
          \<le> int (fcard (votes_at (insert_vote e h s) e h))
     then notarizeBlock h (insert_vote e h s) else insert_vote e h s)"
  have c: "castVote h e s = checkFinalization s2"
    by (simp add: castVote_def Let_def s2_def)
  have f: "blockchain s2 = blockchain s" "finalized_blocks s2 = finalized_blocks s"
    by (simp_all add: s2_def notarizeBlock_def insert_vote_fields)
  have n: "notarized_blocks (castVote h e s) = notarized_blocks s2"
    by (simp add: c checkFinalization_fields)
  show ?thesis
    unfolding n unfolding c
    by (subst checkFinalization_last_two) (simp add: f)
qed

lemma notarized_castVote_small:
  "n_nodes s \<le> 3 \<Longrightarrow> notarized_blocks (castVote h e s) = insert h (notarized_blocks s)"
proof -
  assume "n_nodes s \<le> 3"
  then have "(n_nodes s - 1) div 3 \<le> 0" by arith
  then have "max 1 (2 * ((n_nodes s - 1) sdiv 3) + 1) = 1"
    by (simp add: threshold_floor)
  then show ?thesis
    using fcard_finsert_pos [of "node_id s" "votes_at s e h"]
    by (simp add: notarized_castVote)
qed

lemma example_solo_fresh_fields:
  "node_id example_solo_fresh = 0"
  "n_nodes example_solo_fresh = 1"
  "blockchain example_solo_fresh = [genesis_block example_hash 1700000000000000000]"
  "notarized_blocks example_solo_fresh = {getHash (genesis_block example_hash 1700000000000000000)}"
  "finalized_blocks example_solo_fresh = []"
  by (simp_all add: example_solo_fresh_def StreamletNode_init_fields)

lemma example_block_eq:
  "example_block =
     Block_create example_hash 1700000001000000000 1
       (getHash (genesis_block example_hash 1700000000000000000)) [''tx_1_0''] 0"
  by (simp add: example_block_def proposeBlock_def Let_def findLongestNotarizedChain_def
      example_solo_fresh_fields)

lemma example_solo_eq:
  "example_solo =
     castVote (getHash example_block) 1
       (example_solo_fresh
          \<lparr> block_by_hash := (block_by_hash example_solo_fresh)(getHash example_block \<mapsto> example_block),
            blockchain := blockchain example_solo_fresh @ [example_block] \<rparr>)"
proof -
  have "isValid example_block" "getProposerId example_block = 0" "getEpoch example_block = 1"
    by (simp_all add: example_block_eq isValid_Block_create Block_create_fields)
  then show ?thesis
    unfolding example_solo_def proposeBlock_def Let_def
    by (simp add: receiveProposal_accepts example_solo_fresh_fields example_block_eq [symmetric]
        findLongestNotarizedChain_def)
qed

lemma example_solo_fields:
  "node_id example_solo = 0"
  "n_nodes example_solo = 1"
  "blockchain example_solo = [genesis_block example_hash 1700000000000000000, example_block]"
  "notarized_blocks example_solo =
     {getHash example_block, getHash (genesis_block example_hash 1700000000000000000)}"
  "finalized_blocks example_solo = [genesis_block example_hash 1700000000000000000]"
  by (simp_all add: example_solo_eq castVote_fields example_solo_fresh_fields
      notarized_castVote_small finalized_castVote)

section \<open>Evaluating hashes of concrete blocks\<close>

lemma show_nat_numeral:
  "show_nat (numeral k) =
     (if (numeral k :: nat) < 10 then [digit_char (numeral k)]
      else show_nat (numeral k div 10) @ [digit_char (numeral k mod 10)])"
  by (subst show_nat.simps) simp

lemma show_hex_numeral:
  "show_hex (numeral k) =
     (if (numeral k :: nat) < 16 then [digit_char (numeral k)]
      else show_hex (numeral k div 16) @ [digit_char (numeral k mod 16)])"
  by (subst show_hex.simps) simp

lemma show_small:
  "show_nat 0 = ''0''" "show_nat 1 = ''1''" "show_nat (Suc 0) = ''1''"
  "show_hex 0 = ''0''" "show_hex 1 = ''1''" "show_hex (Suc 0) = ''1''"
  by (subst show_nat.simps show_hex.simps, simp add: digit_char_def)+

lemmas show_eval = show_nat_numeral show_hex_numeral show_small digit_char_def show_int_def
  to_time_t_def signed_divide_int_def

lemma example_block_hash_differs:
  "getHash example_block \<noteq> getHash (genesis_block example_hash 1700000000000000000)"
  by (simp add: example_block_eq genesis_block_def getHash_Block_create
      example_hash_def show_eval)

section \<open>The finalization check\<close>

text \<open>
  Claim C5. \<^verbatim>\<open>checkFinalization\<close> appends the second-to-last block of the local chain
  to the finalized sequence exactly when the chain has at least two blocks and the hashes
  of its last two blocks are both in the notarized set; otherwise the replica is left as
  it is. No other member changes in either case.
\<close>

theorem checkFinalization_appends_penultimate:
  "checkFinalization s =
     (if 2 \<le> length (blockchain s)
         \<and> getHash (last (blockchain s)) \<in> notarized_blocks s
         \<and> getHash (last (butlast (blockchain s))) \<in> notarized_blocks s
      then s \<lparr> finalized_blocks := finalized_blocks s @ [last (butlast (blockchain s))] \<rparr>
      else s)"
  by (rule checkFinalization_last_two)

theorem checkFinalization_appends_penultimate_witness:
  "checkFinalization example_solo =
     example_solo \<lparr> finalized_blocks :=
       [genesis_block example_hash 1700000000000000000,
        genesis_block example_hash 1700000000000000000] \<rparr>
   \<and> checkFinalization example_solo_fresh = example_solo_fresh"
  using checkFinalization_appends_penultimate [of example_solo]
    checkFinalization_appends_penultimate [of example_solo_fresh]
  by (simp add: example_solo_fields example_solo_fresh_fields)

section \<open>Casting a vote\<close>

text \<open>
  Claim C6. \<^verbatim>\<open>castVote(blockHash, epoch)\<close> adds the replica's own id to the vote set
  for (epoch, blockHash) and to no other vote set; the hash is added to the notarized set
  exactly when the size of that vote set has reached \<open>max(1, 2f + 1)\<close> with
  \<open>f = floor((n - 1) / 3)\<close>. With \<open>n = 1\<close> that threshold is 1, so the vote notarizes
  the hash at once, and the block a replica with a non-negative id proposes for a
  non-negative epoch is notarized when \<^verbatim>\<open>proposeBlock\<close> returns. The replica count
  is any \<^verbatim>\<open>int\<close> above \<^verbatim>\<open>INT_MIN\<close>, where \<^verbatim>\<open>n_nodes_ - 1\<close> does not overflow.
\<close>

theorem castVote_votes_and_notarizes:
  assumes "INT_MIN < n_nodes s"
  shows "votes_at (castVote h e s) e h = finsert (node_id s) (votes_at s e h)
   \<and> (\<forall>e' h'. (e', h') \<noteq> (e, h) \<longrightarrow> votes_at (castVote h e s) e' h' = votes_at s e' h')
   \<and> notarized_blocks (castVote h e s) =
       (if max 1 (2 * ((n_nodes s - 1) div 3) + 1) \<le> int (fcard (votes_at (castVote h e s) e h))
        then insert h (notarized_blocks s) else notarized_blocks s)
   \<and> (n_nodes s = 1 \<longrightarrow> max 1 (2 * ((n_nodes s - 1) div 3) + 1) = 1
        \<and> h \<in> notarized_blocks (castVote h e s))
   \<and> (n_nodes s = 1 \<and> 0 \<le> epoch \<and> 0 \<le> node_id s \<longrightarrow>
        getHash (fst (proposeBlock H now epoch txs s))
          \<in> notarized_blocks (snd (proposeBlock H now epoch txs s)))"
proof -
  have v: "votes_at (castVote h e s) e h = finsert (node_id s) (votes_at s e h)"
    by (simp add: votes_at_castVote)
  have one: "n_nodes s = 1 \<Longrightarrow> h \<in> notarized_blocks (castVote h e s)" for h e
    by (simp add: notarized_castVote_small)
  have self_proposed: "getHash (fst (proposeBlock H now epoch txs s))
          \<in> notarized_blocks (snd (proposeBlock H now epoch txs s))"
    if "n_nodes s = 1" "0 \<le> epoch" "0 \<le> node_id s"
    using that
    by (simp add: proposeBlock_def Let_def receiveProposal_accepts
        isValid_Block_create Block_create_fields notarized_castVote_small)
  show ?thesis
    using v one self_proposed
    by (simp add: votes_at_castVote notarized_castVote threshold_floor)
qed

theorem castVote_votes_and_notarizes_witness:
  "INT_MIN < n_nodes example_solo_fresh
   \<and> n_nodes example_solo_fresh = 1 \<and> (0::int) \<le> 1 \<and> 0 \<le> node_id example_solo_fresh
   \<and> (1, ''ab'') \<noteq> (2 :: int, ''ab'')
   \<and> votes_at (castVote ''ab'' 2 example_solo_fresh) 2 ''ab'' = {|0|}
   \<and> votes_at (castVote ''ab'' 2 example_solo_fresh) 1 ''ab'' = {||}
   \<and> ''ab'' \<in> notarized_blocks (castVote ''ab'' 2 example_solo_fresh)
   \<and> getHash example_block \<in> notarized_blocks example_solo"
proof -
  have v: "votes_at example_solo_fresh e h = {||}" for e h
    by (simp add: votes_at_def example_solo_fresh_def StreamletNode_init_fields)
  have n: "INT_MIN < n_nodes example_solo_fresh"
    by (simp add: example_solo_fresh_fields INT_MIN_def)
  show ?thesis
    using n castVote_votes_and_notarizes [OF n, of "''ab''" 2 1 example_hash
        1700000001000000000 "[''tx_1_0'']"]
    by (simp add: example_solo_fresh_fields v example_block_def example_solo_def
        fcard_finsert_if)
qed

section \<open>Rejected proposals\<close>

text \<open>
  Claim C7. When the block fails \<^verbatim>\<open>isValid()\<close> or the \<^verbatim>\<open>proposerId\<close> argument differs
  from the block's own proposer id, \<^verbatim>\<open>receiveProposal\<close> returns false and the replica
  (chain, registry, vote sets, notarized set, finalized sequence) is unchanged.
\<close>

theorem receiveProposal_rejects:
  "\<not> isValid b \<or> proposer_id \<noteq> getProposerId b \<Longrightarrow>
     receiveProposal (Some b) proposer_id s = (False, s)"
  by (auto simp: receiveProposal_def validateBlock_def)

theorem receiveProposal_rejects_witness:
  "3 \<noteq> getProposerId example_block
   \<and> receiveProposal (Some example_block) 3 example_node = (False, example_node)
   \<and> \<not> isValid (genesis_block example_hash 1700000000000000000)
   \<and> receiveProposal (Some (genesis_block example_hash 1700000000000000000)) (- 1) example_node
       = (False, example_node)"
proof -
  have h: "\<not> isValid example_block \<or> 3 \<noteq> getProposerId example_block"
    by (simp add: example_block_eq Block_create_fields)
  have g: "\<not> isValid (genesis_block example_hash 1700000000000000000)
           \<or> - 1 \<noteq> getProposerId (genesis_block example_hash 1700000000000000000)"
    by (simp add: genesis_block_def isValid_Block_create)
  show ?thesis
    using receiveProposal_rejects [OF h, of example_node]
      receiveProposal_rejects [OF g, of example_node]
    by (simp add: example_block_eq Block_create_fields genesis_block_def isValid_Block_create)
qed

section \<open>The genesis block is not a valid proposal\<close>

text \<open>
  Claim C10. The genesis block has epoch 0, parent "GENESIS", the one transaction
  "genesis" and proposer -1. Its hash is not empty and its epoch is not negative, so it
  fails \<^verbatim>\<open>isValid()\<close> for its negative proposer id alone (with proposer 0 the same
  block would be valid). So \<^verbatim>\<open>receiveProposal\<close> applied to it returns false, without
  effect, for every \<^verbatim>\<open>proposerId\<close>; yet a fresh replica has it in its chain, its
  registry and its notarized set.
\<close>

theorem genesis_block_not_valid:
  "getEpoch (genesis_block H now) = 0
   \<and> getParentHash (genesis_block H now) = ''GENESIS''
   \<and> getTransactions (genesis_block H now) = [''genesis'']
   \<and> getProposerId (genesis_block H now) = - 1
   \<and> getTimestamp (genesis_block H now) = now
   \<and> getHash (genesis_block H now) \<noteq> []
   \<and> 0 \<le> getEpoch (genesis_block H now)
   \<and> getProposerId (genesis_block H now) < 0
   \<and> \<not> isValid (genesis_block H now)
   \<and> isValid (genesis_block H now \<lparr> getProposerId := 0 \<rparr>)
   \<and> receiveProposal (Some (genesis_block H now)) proposer_id s = (False, s)
   \<and> blockchain (StreamletNode_init H now nid n) = [genesis_block H now]
   \<and> block_by_hash (StreamletNode_init H now nid n) (getHash (genesis_block H now))
       = Some (genesis_block H now)
   \<and> getHash (genesis_block H now) \<in> notarized_blocks (StreamletNode_init H now nid n)"
proof -
  have f: "getEpoch (genesis_block H now) = 0"
    "getParentHash (genesis_block H now) = ''GENESIS''"
    "getTransactions (genesis_block H now) = [''genesis'']"
    "getProposerId (genesis_block H now) = - 1"
    "getTimestamp (genesis_block H now) = now"
    by (simp_all add: genesis_block_def Block_create_fields)
  have h: "getHash (genesis_block H now) \<noteq> []"
    by (simp add: genesis_block_def getHash_Block_create show_hex_nonempty)
  have i: "\<not> isValid (genesis_block H now)"
    by (simp add: isValid_def f)
  have v: "isValid (genesis_block H now \<lparr> getProposerId := 0 \<rparr>)"
    using h by (simp add: isValid_def f)
  have r: "receiveProposal (Some (genesis_block H now)) proposer_id s = (False, s)"
    using i by (simp add: receiveProposal_def validateBlock_def)
  show ?thesis
    using f h i v r by (simp add: StreamletNode_init_fields)
qed

theorem genesis_block_not_valid_witness:
  "getProposerId (genesis_block example_hash 1700000000000000000) = - 1
   \<and> getParentHash (genesis_block example_hash 1700000000000000000) = ''GENESIS''
   \<and> getHash (genesis_block example_hash 1700000000000000000) = ''32d9a49dc656665b''
   \<and> \<not> isValid (genesis_block example_hash 1700000000000000000)
   \<and> receiveProposal (Some (genesis_block example_hash 1700000000000000000)) (- 1) example_node
       = (False, example_node)
   \<and> blockchain example_node = [genesis_block example_hash 1700000000000000000]
   \<and> getHash (genesis_block example_hash 1700000000000000000) \<in> notarized_blocks example_node"
proof -
  have "getHash (genesis_block example_hash 1700000000000000000) = ''32d9a49dc656665b''"
    by (simp add: genesis_block_def getHash_Block_create example_hash_def show_eval)
  then show ?thesis
    using genesis_block_not_valid [of example_hash 1700000000000000000 "- 1" example_node 0 4]
    by (simp add: example_node_def)
qed

section \<open>One replica: notarized hashes and their votes\<close>

lemma votes_at_castVote_mono: "votes_at s e' h' |\<subseteq>| votes_at (castVote h e s) e' h'"
  by (auto simp: votes_at_castVote)

lemma castVote_quorum_inv:
  assumes "quorum_inv g s"
  shows "quorum_inv g (castVote h e s)"
  unfolding quorum_inv_def
proof
  fix x
  assume x: "x \<in> notarized_blocks (castVote h e s)"
  let ?T = "max 1 (2 * ((n_nodes s - 1) sdiv 3) + 1)"
  show "x = g \<or> (\<exists>e'. max 1 (2 * ((n_nodes (castVote h e s) - 1) sdiv 3) + 1)
                        \<le> int (fcard (votes_at (castVote h e s) e' x)))"
  proof (cases "x \<in> notarized_blocks s")
    case True
    then consider "x = g" | e' where "?T \<le> int (fcard (votes_at s e' x))"
      using assms by (auto simp: quorum_inv_def)
    then show ?thesis
    proof cases
      case 1
      then show ?thesis by simp
    next
      case 2
      have "fcard (votes_at s e' x) \<le> fcard (votes_at (castVote h e s) e' x)"
        by (rule fcard_mono [OF votes_at_castVote_mono])
      then have "?T \<le> int (fcard (votes_at (castVote h e s) e' x))"
        using 2 by linarith
      then show ?thesis
        by (auto simp: castVote_fields)
    qed
  next
    case False
    then have "x = h" and "?T \<le> int (fcard (finsert (node_id s) (votes_at s e h)))"
      using x by (auto simp: notarized_castVote split: if_splits)
    then have "?T \<le> int (fcard (votes_at (castVote h e s) e x))"
      by (simp add: votes_at_castVote)
    then show ?thesis
      by (auto simp: castVote_fields)
  qed
qed

lemma quorum_inv_chain_update:
  "quorum_inv g (s \<lparr> block_by_hash := m, blockchain := c \<rparr>) = quorum_inv g s"
  by (simp add: quorum_inv_def votes_at_chain_update)

lemma receiveProposal_quorum_inv:
  "quorum_inv g s \<Longrightarrow> quorum_inv g (snd (receiveProposal blk pid s))"
  by (cases blk)
    (simp_all add: receiveProposal_def Let_def castVote_quorum_inv quorum_inv_chain_update)

lemma checkFinalization_quorum_inv:
  "quorum_inv g s \<Longrightarrow> quorum_inv g (checkFinalization s)"
  by (simp add: quorum_inv_def checkFinalization_fields votes_at_checkFinalization)

lemma apply_op_quorum_inv: "quorum_inv g s \<Longrightarrow> quorum_inv g (apply_op H x s)"
  by (cases x)
    (simp_all add: castVote_quorum_inv receiveProposal_quorum_inv checkFinalization_quorum_inv
      proposeBlock_snd)

lemma apply_ops_quorum_inv: "quorum_inv g s \<Longrightarrow> quorum_inv g (apply_ops H ops s)"
  by (induction ops arbitrary: s) (simp_all add: apply_op_quorum_inv)

lemma receiveProposal_notarized_mono:
  "h \<in> notarized_blocks s \<Longrightarrow> h \<in> notarized_blocks (snd (receiveProposal blk pid s))"
  by (cases blk) (simp_all add: receiveProposal_def Let_def notarized_castVote)

lemma apply_op_notarized_mono:
  "h \<in> notarized_blocks s \<Longrightarrow> h \<in> notarized_blocks (apply_op H x s)"
  by (cases x)
    (simp_all add: notarized_castVote checkFinalization_fields receiveProposal_notarized_mono
      proposeBlock_snd)

lemma apply_ops_notarized_mono:
  "h \<in> notarized_blocks s \<Longrightarrow> h \<in> notarized_blocks (apply_ops H ops s)"
  by (induction ops arbitrary: s) (simp_all add: apply_op_notarized_mono)

lemma receiveProposal_n_nodes: "n_nodes (snd (receiveProposal blk pid s)) = n_nodes s"
  by (cases blk) (simp_all add: receiveProposal_def Let_def castVote_fields)

lemma apply_op_n_nodes: "n_nodes (apply_op H x s) = n_nodes s"
  by (cases x)
    (simp_all add: castVote_fields checkFinalization_fields receiveProposal_n_nodes
      proposeBlock_snd)

lemma apply_ops_n_nodes: "n_nodes (apply_ops H ops s) = n_nodes s"
  by (induction ops arbitrary: s) (simp_all add: apply_op_n_nodes)

text \<open>
  Claim C3, as amended. A fresh replica has the genesis hash in its notarized set and no
  vote set at all, so the claim fails for the genesis hash. What holds after any sequence
  of the public operations (\<^verbatim>\<open>proposeBlock\<close>, \<^verbatim>\<open>receiveProposal\<close>, \<^verbatim>\<open>castVote\<close>,
  \<^verbatim>\<open>checkFinalization\<close>) on a fresh replica: every notarized hash other than the
  genesis hash has, for some epoch, a vote set of size at least \<open>max(1, 2f + 1)\<close> with
  \<open>f = floor((n - 1) / 3)\<close>; the genesis hash is notarized; and no operation removes a
  hash from the notarized set of any replica.
\<close>

theorem notarized_quorum_except_genesis:
  "(\<forall>h \<in> notarized_blocks (apply_ops H ops (StreamletNode_init H now nid n)).
       h = getHash (genesis_block H now)
     \<or> (\<exists>e. max 1 (2 * ((n - 1) div 3) + 1)
              \<le> int (fcard (votes_at (apply_ops H ops (StreamletNode_init H now nid n)) e h))))
   \<and> getHash (genesis_block H now)
       \<in> notarized_blocks (apply_ops H ops (StreamletNode_init H now nid n))
   \<and> (\<forall>h \<in> notarized_blocks s. h \<in> notarized_blocks (apply_ops H ops s))"
proof -
  have "quorum_inv (getHash (genesis_block H now)) (StreamletNode_init H now nid n)"
    by (simp add: quorum_inv_def StreamletNode_init_fields)
  then have "quorum_inv (getHash (genesis_block H now))
               (apply_ops H ops (StreamletNode_init H now nid n))"
    by (rule apply_ops_quorum_inv)
  then have "\<forall>h \<in> notarized_blocks (apply_ops H ops (StreamletNode_init H now nid n)).
       h = getHash (genesis_block H now)
     \<or> (\<exists>e. max 1 (2 * ((n - 1) div 3) + 1)
              \<le> int (fcard (votes_at (apply_ops H ops (StreamletNode_init H now nid n)) e h)))"
    by (simp add: quorum_inv_def apply_ops_n_nodes StreamletNode_init_fields threshold_floor)
  moreover have "getHash (genesis_block H now)
       \<in> notarized_blocks (apply_ops H ops (StreamletNode_init H now nid n))"
    by (rule apply_ops_notarized_mono) (simp add: StreamletNode_init_fields)
  ultimately show ?thesis
    using apply_ops_notarized_mono by blast
qed

theorem notarized_quorum_except_genesis_witness:
  "apply_ops example_hash [ProposeBlock 1700000001000000000 1 [''tx_1_0'']] example_solo_fresh
     = example_solo
   \<and> getHash example_block \<in> notarized_blocks example_solo
   \<and> getHash example_block \<noteq> getHash (genesis_block example_hash 1700000000000000000)
   \<and> (\<exists>e. 1 \<le> int (fcard (votes_at example_solo e (getHash example_block))))
   \<and> getHash (genesis_block example_hash 1700000000000000000) \<in> notarized_blocks example_solo"
proof -
  have a: "apply_ops example_hash [ProposeBlock 1700000001000000000 1 [''tx_1_0'']]
             (StreamletNode_init example_hash 1700000000000000000 0 1) = example_solo"
    by (simp add: example_solo_def example_solo_fresh_def)
  have b: "apply_ops example_hash [ProposeBlock 1700000001000000000 1 [''tx_1_0'']]
             example_solo_fresh = example_solo"
    by (simp add: example_solo_def)
  have m: "getHash example_block \<in> notarized_blocks example_solo"
    by (simp add: example_solo_fields)
  note t = notarized_quorum_except_genesis [of example_hash
        "[ProposeBlock 1700000001000000000 1 [''tx_1_0'']]" 1700000000000000000 0 1
        example_solo_fresh, unfolded a]
  from t m example_block_hash_differs
  have "\<exists>e. 1 \<le> int (fcard (votes_at example_solo e (getHash example_block)))"
    by auto
  then show ?thesis
    using t m example_block_hash_differs b by blast
qed

theorem genesis_notarized_without_votes:
  "getHash (genesis_block example_hash 1700000000000000000) \<in> notarized_blocks example_node
   \<and> dom (votes_by_epoch example_node) = {}
   \<and> fcard (votes_at example_node 0 (getHash (genesis_block example_hash 1700000000000000000))) = 0
   \<and> max 1 (2 * ((n_nodes example_node - 1) div 3) + 1) = 3"
  by (simp add: example_node_def StreamletNode_init_fields votes_at_def)

section \<open>Voting twice\<close>

text \<open>
  Claim C4. A second \<^verbatim>\<open>castVote\<close> with the same (epoch, blockHash) should leave the
  replica as it was. The code re-runs \<^verbatim>\<open>checkFinalization\<close>, which has no test for
  a block that is finalized already: on the only replica of a one-replica protocol that
  has proposed (and so voted for) a block in epoch 1, casting the same vote again appends
  the genesis block to the finalized sequence a second time, and a third time on the
  next call.
\<close>

theorem castVote_repeated_appends_again:
  "votes_at example_solo 1 (getHash example_block) = {|0|}
   \<and> finalized_blocks example_solo = [genesis_block example_hash 1700000000000000000]
   \<and> finalized_blocks (castVote (getHash example_block) 1 example_solo)
       = [genesis_block example_hash 1700000000000000000,
          genesis_block example_hash 1700000000000000000]
   \<and> finalized_blocks
         (castVote (getHash example_block) 1 (castVote (getHash example_block) 1 example_solo))
       = [genesis_block example_hash 1700000000000000000,
          genesis_block example_hash 1700000000000000000,
          genesis_block example_hash 1700000000000000000]
   \<and> castVote (getHash example_block) 1 (castVote (getHash example_block) 1 example_solo)
       \<noteq> castVote (getHash example_block) 1 example_solo"
proof -
  let ?h = "getHash example_block"
  let ?g = "genesis_block example_hash 1700000000000000000"
  have v: "votes_at example_solo 1 ?h = {|0|}"
    by (simp add: example_solo_eq votes_at_castVote votes_at_chain_update example_solo_fresh_fields)
      (simp add: votes_at_def example_solo_fresh_def StreamletNode_init_fields)
  have n1: "notarized_blocks (castVote ?h 1 example_solo) = notarized_blocks example_solo"
    by (auto simp: notarized_castVote_small example_solo_fields)
  have f1: "finalized_blocks (castVote ?h 1 example_solo) = [?g, ?g]"
    by (simp add: finalized_castVote n1 example_solo_fields)
  have n2: "notarized_blocks (castVote ?h 1 (castVote ?h 1 example_solo))
              = notarized_blocks example_solo"
    by (auto simp: notarized_castVote_small castVote_fields example_solo_fields)
  have f2: "finalized_blocks (castVote ?h 1 (castVote ?h 1 example_solo)) = [?g, ?g, ?g]"
    by (simp add: finalized_castVote [of ?h 1 "castVote ?h 1 example_solo"] n2 f1
        castVote_fields example_solo_fields)
  have "finalized_blocks (castVote ?h 1 (castVote ?h 1 example_solo))
          \<noteq> finalized_blocks (castVote ?h 1 example_solo)"
    by (simp add: f1 f2)
  then have "castVote ?h 1 (castVote ?h 1 example_solo) \<noteq> castVote ?h 1 example_solo"
    by auto
  then show ?thesis
    using v f1 f2 by (simp add: example_solo_fields)
qed

section \<open>The protocol driver\<close>

lemma fcard_subset_single: "V |\<subseteq>| {|i|} \<Longrightarrow> int (fcard V) \<le> 1"
  using fcard_mono [of V "{|i|}"] by (simp add: fcard_finsert_if fcard_fempty)

lemma threshold_ge_3: "4 \<le> n \<Longrightarrow> 3 \<le> max 1 (2 * ((n - 1) sdiv 3) + 1)" for n :: int
proof -
  assume "4 \<le> n"
  then have "1 \<le> (n - 1) div 3" by arith
  then show ?thesis by (simp add: threshold_floor)
qed

lemma castVote_no_quorum:
  assumes "4 \<le> n_nodes s" and "votes_at s e h |\<subseteq>| {|node_id s|}"
  shows "notarized_blocks (castVote h e s) = notarized_blocks s"
proof -
  have "finsert (node_id s) (votes_at s e h) |\<subseteq>| {|node_id s|}"
    using assms(2) by auto
  then have "int (fcard (finsert (node_id s) (votes_at s e h))) \<le> 1"
    by (rule fcard_subset_single)
  then have "\<not> max 1 (2 * ((n_nodes s - 1) sdiv 3) + 1)
               \<le> int (fcard (finsert (node_id s) (votes_at s e h)))"
    using threshold_ge_3 [OF assms(1)] by linarith
  then show ?thesis
    by (simp only: notarized_castVote if_False)
qed

lemma receiveProposal_node_inv:
  assumes n: "4 \<le> n" and inv: "node_inv n i g s"
  shows "node_inv n i g (snd (receiveProposal blk pid s))"
proof (cases "validateBlock s blk pid")
  case False
  then show ?thesis using inv by (simp add: receiveProposal_def)
next
  case True
  then obtain b where blk: "blk = Some b"
    by (cases blk) (simp_all add: validateBlock_def)
  define s2 where "s2 = s \<lparr> block_by_hash := (block_by_hash s)(getHash b \<mapsto> b),
                            blockchain := blockchain s @ [b] \<rparr>"
  have r: "snd (receiveProposal blk pid s) = castVote (getHash b) (getEpoch b) s2"
    using True by (simp add: receiveProposal_def blk Let_def s2_def)
  have s2: "node_id s2 = i" "n_nodes s2 = n" "blockchain s2 = blockchain s @ [b]"
    "notarized_blocks s2 = {getHash g}" "finalized_blocks s2 = finalized_blocks s"
    "votes_at s2 = votes_at s"
    using inv by (simp_all add: s2_def node_inv_def votes_at_chain_update)
  have v: "votes_at s e h |\<subseteq>| {|i|}" for e h
    using inv by (simp add: node_inv_def)
  have ne: "blockchain s \<noteq> []" and hd: "hd (blockchain s) = g"
    using inv by (simp_all add: node_inv_def)
  have N: "notarized_blocks (castVote (getHash b) (getEpoch b) s2) = {getHash g}"
    using castVote_no_quorum [of s2 "getEpoch b" "getHash b"] n v by (simp add: s2)
  have F: "finalized_blocks (castVote (getHash b) (getEpoch b) s2) \<noteq> [] \<longrightarrow>
           (\<exists>x \<in> set (tl (blockchain s @ [b])). getHash x = getHash g)"
  proof
    assume a: "finalized_blocks (castVote (getHash b) (getEpoch b) s2) \<noteq> []"
    show "\<exists>x \<in> set (tl (blockchain s @ [b])). getHash x = getHash g"
    proof (cases "getHash b = getHash g")
      case True
      then show ?thesis using ne by auto
    next
      case False
      then have "finalized_blocks (castVote (getHash b) (getEpoch b) s2) = finalized_blocks s"
        by (simp add: finalized_castVote N s2)
      then have "finalized_blocks s \<noteq> []" using a by simp
      then obtain x where "x \<in> set (tl (blockchain s))" "getHash x = getHash g"
        using inv by (auto simp: node_inv_def)
      then show ?thesis using ne by auto
    qed
  qed
  show ?thesis
    unfolding r node_inv_def
    using N F v ne hd
    by (simp add: castVote_fields s2 votes_at_castVote)
qed

lemma deliver_result:
  assumes "distinct is" and "\<forall>i \<in> set is. 0 \<le> i \<and> i < int (length ns)"
  shows "\<exists>ns'. deliver b leader is ns = Inr ns' \<and> length ns' = length ns
           \<and> (\<forall>k < length ns. ns' ! k =
                 (if int k \<in> set is \<and> int k \<noteq> leader
                  then snd (receiveProposal (Some b) leader (ns ! k)) else ns ! k))"
  using assms
proof (induction "is" arbitrary: ns)
  case Nil
  then show ?case by simp
next
  case (Cons i "is")
  show ?case
  proof (cases "i = leader")
    case True
    then show ?thesis
      using Cons.IH [of ns] Cons.prems by auto
  next
    case False
    define ns1 where "ns1 = ns [nat i := snd (receiveProposal (Some b) leader (ns ! nat i))]"
    have rng: "0 \<le> i" "i < int (length ns)" using Cons.prems by auto
    have "distinct is" "\<forall>j \<in> set is. 0 \<le> j \<and> j < int (length ns1)"
      using Cons.prems by (auto simp: ns1_def)
    from Cons.IH [OF this] obtain ns' where
      d: "deliver b leader is ns1 = Inr ns'" and l: "length ns' = length ns1"
      and k: "\<forall>k < length ns1. ns' ! k =
                 (if int k \<in> set is \<and> int k \<noteq> leader
                  then snd (receiveProposal (Some b) leader (ns1 ! k)) else ns1 ! k)"
      by blast
    have "deliver b leader (i # is) ns = Inr ns'"
      using False rng d by (simp add: ns1_def)
    moreover have "length ns' = length ns"
      using l by (simp add: ns1_def)
    moreover have "ns' ! k =
        (if int k \<in> set (i # is) \<and> int k \<noteq> leader
         then snd (receiveProposal (Some b) leader (ns ! k)) else ns ! k)"
      if "k < length ns" for k
    proof (cases "int k = i")
      case True
      then have "int k \<notin> set is" using Cons.prems by auto
      moreover have "nat i = k" using True by auto
      ultimately show ?thesis
        using k that True False by (simp add: ns1_def)
    next
      case ki: False
      then have "nat i \<noteq> k" using rng by auto
      then show ?thesis
        using k that ki by (simp add: ns1_def)
    qed
    ultimately show ?thesis by blast
  qed
qed


lemma runEpoch_core:
  assumes len: "proto_n_nodes p = int (length (nodes p))"
    and front: "nodes p = front # rest"
    and leader: "getEpochLeader front epoch = Some leader"
    and rng: "0 \<le> leader" "leader < int (length (nodes p))"
  shows "\<exists>ns'. runEpoch H t epoch txs p = Inr (p \<lparr> nodes := ns' \<rparr>)
           \<and> length ns' = length (nodes p)
           \<and> (\<forall>k < length (nodes p). ns' ! k =
                 (if int k = leader then snd (proposeBlock H t epoch txs (nodes p ! k))
                  else snd (receiveProposal
                         (Some (fst (proposeBlock H t epoch txs (nodes p ! nat leader))))
                         leader (nodes p ! k))))"
proof -
  define proposal where "proposal = fst (proposeBlock H t epoch txs (nodes p ! nat leader))"
  define leaderNode where "leaderNode = snd (proposeBlock H t epoch txs (nodes p ! nat leader))"
  define ns where "ns = (nodes p) [nat leader := leaderNode]"
  have lns: "length ns = length (nodes p)" by (simp add: ns_def)
  have "distinct [0..proto_n_nodes p - 1]"
    and "\<forall>i \<in> set [0..proto_n_nodes p - 1]. 0 \<le> i \<and> i < int (length ns)"
    using len by (simp_all add: lns)
  from deliver_result [OF this, of proposal leader] obtain ns' where
    d: "deliver proposal leader [0..proto_n_nodes p - 1] ns = Inr ns'"
    and l: "length ns' = length ns"
    and k: "\<forall>k < length ns. ns' ! k =
              (if int k \<in> set [0..proto_n_nodes p - 1] \<and> int k \<noteq> leader
               then snd (receiveProposal (Some proposal) leader (ns ! k)) else ns ! k)"
    by blast
  have run: "runEpoch H t epoch txs p = Inr (p \<lparr> nodes := ns' \<rparr>)"
    using front leader rng d
    by (simp add: runEpoch_def Let_def split_beta proposal_def leaderNode_def ns_def
        del: upto.simps)
  have "ns' ! j =
      (if int j = leader then snd (proposeBlock H t epoch txs (nodes p ! j))
       else snd (receiveProposal (Some proposal) leader (nodes p ! j)))"
    if "j < length (nodes p)" for j
  proof (cases "int j = leader")
    case True
    then have "nat leader = j" by auto
    then show ?thesis
      using k that True by (simp add: lns ns_def leaderNode_def)
  next
    case False
    then have "nat leader \<noteq> j" using rng by auto
    moreover have "int j \<in> set [0..proto_n_nodes p - 1]"
      using that len by simp
    ultimately show ?thesis
      using k that False by (simp add: lns ns_def)
  qed
  then show ?thesis
    using run l lns unfolding proposal_def by auto
qed

lemma runEpoch_Inr_cases:
  assumes "runEpoch H t epoch txs p = Inr p'"
  obtains front rest leader where "nodes p = front # rest"
    "getEpochLeader front epoch = Some leader" "0 \<le> leader" "leader < int (length (nodes p))"
  using assms
  by (auto simp: runEpoch_def split: list.splits option.splits if_splits)

lemma runEpoch_proto_inv:
  assumes n: "4 \<le> n" and inv: "proto_inv H now n p" and run: "runEpoch H t epoch txs p = Inr p'"
  shows "proto_inv H now n p'"
proof -
  from run obtain front rest leader where c: "nodes p = front # rest"
    "getEpochLeader front epoch = Some leader" "0 \<le> leader" "leader < int (length (nodes p))"
    by (rule runEpoch_Inr_cases)
  have len: "proto_n_nodes p = int (length (nodes p))"
    using inv by (simp add: proto_inv_def)
  from runEpoch_core [OF len c, of H t txs] run obtain ns' where
    p': "p' = p \<lparr> nodes := ns' \<rparr>" and l: "length ns' = length (nodes p)"
    and k: "\<forall>k < length (nodes p). ns' ! k =
                 (if int k = leader then snd (proposeBlock H t epoch txs (nodes p ! k))
                  else snd (receiveProposal
                         (Some (fst (proposeBlock H t epoch txs (nodes p ! nat leader))))
                         leader (nodes p ! k)))"
    by auto
  have "node_inv n (int j) (genesis_block H (now (int j))) (ns' ! j)" if "j < length (nodes p)" for j
  proof -
    have "node_inv n (int j) (genesis_block H (now (int j))) (nodes p ! j)"
      using inv that by (simp add: proto_inv_def)
    then have r: "node_inv n (int j) (genesis_block H (now (int j)))
                 (snd (receiveProposal blk pid (nodes p ! j)))" for blk pid
      by (rule receiveProposal_node_inv [OF n])
    show ?thesis
    proof (cases "int j = leader")
      case True
      then have "ns' ! j = snd (proposeBlock H t epoch txs (nodes p ! j))"
        using k that by simp
      then show ?thesis
        by (simp only: proposeBlock_snd r)
    next
      case False
      then have "ns' ! j = snd (receiveProposal
                         (Some (fst (proposeBlock H t epoch txs (nodes p ! nat leader))))
                         leader (nodes p ! j))"
        using k that by simp
      then show ?thesis
        by (simp only: r)
    qed
  qed
  then show ?thesis
    using inv l by (simp add: proto_inv_def p')
qed



lemma runEpoch_returns:
  assumes n: "4 \<le> n" and inv: "proto_inv H now n p" and e: "0 \<le> epoch"
  shows "\<exists>p'. runEpoch H t epoch txs p = Inr p'"
proof -
  have len: "proto_n_nodes p = int (length (nodes p))" and l: "int (length (nodes p)) = n"
    using inv by (simp_all add: proto_inv_def)
  then obtain front rest where front: "nodes p = front # rest"
    using n by (cases "nodes p") auto
  have "\<forall>k < length (nodes p).
          node_inv n (int k) (genesis_block H (now (int k))) (nodes p ! k)"
    using inv by (simp add: proto_inv_def)
  moreover have "0 < length (nodes p)"
    by (simp add: front)
  ultimately have "node_inv n (int 0) (genesis_block H (now (int 0))) (nodes p ! 0)"
    by blast
  then have nf: "n_nodes front = n"
    by (simp add: front node_inv_def)
  have "epoch smod n = epoch mod n"
    using n e by (auto simp: signed_modulo_int_def sgn_if)
  then have leader: "getEpochLeader front epoch = Some (epoch mod n)"
    using n by (simp add: getEpochLeader_def nf)
  have rng: "0 \<le> epoch mod n" "epoch mod n < int (length (nodes p))"
    using n l by simp_all
  from runEpoch_core [OF len front leader rng, of H t txs] show ?thesis
    by blast
qed

lemma runEpochs_returns:
  assumes "4 \<le> n" and "proto_inv H now n p" and "\<forall>c \<in> set calls. 0 \<le> fst (snd c)"
  shows "\<exists>p'. runEpochs H calls p = Inr p'"
  using assms(2,3)
proof (induction calls arbitrary: p)
  case Nil
  then show ?case by simp
next
  case (Cons c calls)
  obtain t epoch txs where c: "c = (t, epoch, txs)" by (cases c)
  have "0 \<le> epoch" using Cons.prems(2) by (simp add: c)
  from runEpoch_returns [OF assms(1) Cons.prems(1) this, of t txs] obtain p1 where
    r: "runEpoch H t epoch txs p = Inr p1" by blast
  from runEpoch_proto_inv [OF assms(1) Cons.prems(1) r] have "proto_inv H now n p1" .
  moreover have "\<forall>c \<in> set calls. 0 \<le> fst (snd c)" using Cons.prems(2) by simp
  ultimately obtain p' where "runEpochs H calls p1 = Inr p'"
    using Cons.IH by blast
  then show ?case
    using r by (simp add: c)
qed


lemma example_protocol_init:
  "StreamletProtocol_init example_hash example_clock 4 = Inr example_protocol"
  by (simp add: StreamletProtocol_init_def example_protocol_def)

lemma example_protocol_nodes:
  "nodes example_protocol =
     [StreamletNode_init example_hash (example_clock 0) 0 4,
      StreamletNode_init example_hash (example_clock 1) 1 4,
      StreamletNode_init example_hash (example_clock 2) 2 4,
      StreamletNode_init example_hash (example_clock 3) 3 4]"
  by (simp add: example_protocol_def upto.simps)









text \<open>
  Claim C2, as amended. Constructing the driver with a negative replica count fails
  eagerly (\<^verbatim>\<open>reserve\<close> throws \<^verbatim>\<open>std::length_error\<close>); with the count 0 it does
  not fail, and gives a driver without replicas.
\<close>

theorem StreamletProtocol_init_negative_fails_zero_succeeds:
  "(n < 0 \<longrightarrow> StreamletProtocol_init H now n = Inl LengthError)
   \<and> StreamletProtocol_init H now 0 = Inr \<lparr> proto_n_nodes = 0, nodes = [] \<rparr>"
  by (simp add: StreamletProtocol_init_def)

theorem StreamletProtocol_init_negative_fails_zero_succeeds_witness:
  "(- 1 :: int) < 0
   \<and> StreamletProtocol_init example_hash example_clock (- 1) = Inl LengthError
   \<and> StreamletProtocol_init example_hash example_clock 0 = Inr \<lparr> proto_n_nodes = 0, nodes = [] \<rparr>"
  using StreamletProtocol_init_negative_fails_zero_succeeds [of "- 1" example_hash example_clock]
  by simp

theorem StreamletProtocol_init_accepts_zero:
  "\<not> isl (StreamletProtocol_init example_hash example_clock 0)
   \<and> nodes (projr (StreamletProtocol_init example_hash example_clock 0)) = []"
  by (simp add: StreamletProtocol_init_def)

section \<open>Block hashes and leaders\<close>

text \<open>
  Claim C8, as amended. The creation time is hashed along with the content, in whole
  seconds: two blocks built from the same epoch, parent hash, transactions and proposer
  id have the same hash input exactly when their creation seconds are the same, and the
  same hash exactly when \<^verbatim>\<open>std::hash\<close> gives their hash inputs the same value. So
  built within one second they have the same hash, and built in different seconds they
  have different hashes unless \<^verbatim>\<open>std::hash\<close> collides on the two inputs.
\<close>

theorem Block_hash_depends_on_creation_second:
  "(to_time_t t1 = to_time_t t2 \<longrightarrow>
      getHash (Block_create H t1 epoch parent txs pid)
        = getHash (Block_create H t2 epoch parent txs pid))
   \<and> (hash_content (Block_create H t1 epoch parent txs pid)
        = hash_content (Block_create H t2 epoch parent txs pid)
      \<longleftrightarrow> to_time_t t1 = to_time_t t2)
   \<and> (getHash (Block_create H t1 epoch parent txs pid)
        = getHash (Block_create H t2 epoch parent txs pid)
      \<longleftrightarrow> H (hash_content (Block_create H t1 epoch parent txs pid))
          = H (hash_content (Block_create H t2 epoch parent txs pid)))"
proof -
  have c: "hash_content (Block_create H t1 epoch parent txs pid)
        = hash_content (Block_create H t2 epoch parent txs pid)
      \<longleftrightarrow> to_time_t t1 = to_time_t t2"
    using show_int_inj [of "to_time_t t1" "to_time_t t2"]
    by (auto simp: hash_content_Block_create)
  have h: "getHash (Block_create H t1 epoch parent txs pid)
        = getHash (Block_create H t2 epoch parent txs pid)
      \<longleftrightarrow> H (hash_content (Block_create H t1 epoch parent txs pid))
          = H (hash_content (Block_create H t2 epoch parent txs pid))"
    using show_hex_inj by (auto simp: getHash_calculateHash)
  have s: "to_time_t t1 = to_time_t t2 \<longrightarrow>
      getHash (Block_create H t1 epoch parent txs pid)
        = getHash (Block_create H t2 epoch parent txs pid)"
    by (simp add: getHash_Block_create)
  show ?thesis
    using s c h by blast
qed

theorem Block_hash_depends_on_creation_second_witness:
  "to_time_t 1700000000000000000 = to_time_t 1700000000250000000
   \<and> getHash (Block_create example_hash 1700000000000000000 1 ''c0ffee'' [''tx_1_0'', ''tx_1_1''] 1)
     = getHash (Block_create example_hash 1700000000250000000 1 ''c0ffee'' [''tx_1_0'', ''tx_1_1''] 1)
   \<and> to_time_t 1700000000000000000 \<noteq> to_time_t 1700000001000000000
   \<and> hash_content (Block_create example_hash 1700000000000000000 1 ''c0ffee'' [''tx_1_0'', ''tx_1_1''] 1)
     \<noteq> hash_content (Block_create example_hash 1700000001000000000 1 ''c0ffee'' [''tx_1_0'', ''tx_1_1''] 1)
   \<and> example_hash (hash_content (Block_create example_hash 1700000000000000000 1 ''c0ffee'' [''tx_1_0'', ''tx_1_1''] 1))
     \<noteq> example_hash (hash_content (Block_create example_hash 1700000001000000000 1 ''c0ffee'' [''tx_1_0'', ''tx_1_1''] 1))
   \<and> getHash (Block_create example_hash 1700000000000000000 1 ''c0ffee'' [''tx_1_0'', ''tx_1_1''] 1)
     \<noteq> getHash (Block_create example_hash 1700000001000000000 1 ''c0ffee'' [''tx_1_0'', ''tx_1_1''] 1)"
proof -
  have a: "to_time_t 1700000000000000000 = to_time_t 1700000000250000000"
    by (simp add: to_time_t_def signed_divide_int_def)
  have b: "to_time_t 1700000000000000000 \<noteq> to_time_t 1700000001000000000"
    by (simp add: to_time_t_def signed_divide_int_def)
  have h: "example_hash (hash_content (Block_create example_hash 1700000000000000000 1 ''c0ffee'' [''tx_1_0'', ''tx_1_1''] 1))
     \<noteq> example_hash (hash_content (Block_create example_hash 1700000001000000000 1 ''c0ffee'' [''tx_1_0'', ''tx_1_1''] 1))"
    by (simp add: hash_content_Block_create example_hash_def show_eval)
  show ?thesis
    using a b h
      Block_hash_depends_on_creation_second [of 1700000000000000000 1700000000250000000
        example_hash 1 "''c0ffee''" "[''tx_1_0'', ''tx_1_1'']" 1]
      Block_hash_depends_on_creation_second [of 1700000000000000000 1700000001000000000
        example_hash 1 "''c0ffee''" "[''tx_1_0'', ''tx_1_1'']" 1]
    by blast
qed

theorem Block_hash_not_unique:
  "\<not> (getHash (genesis_block example_hash (example_clock 0))
        \<noteq> getHash (genesis_block example_hash (example_clock 1)))"
  by (simp add: genesis_block_def getHash_Block_create example_clock_def to_time_t_def
      signed_divide_int_def)

text \<open>
  Claim C9, as amended. For a replica count \<open>n \<ge> 1\<close> and every epoch \<open>\<ge> 0\<close>,
  \<^verbatim>\<open>getEpochLeader(epoch)\<close> is \<open>epoch mod n\<close>, it is the same for \<open>epoch + n\<close>, and all
  replicas of one protocol instance compute it alike. (For a negative epoch, \<^verbatim>\<open>%\<close>
  truncates towards zero and the result is not \<open>epoch mod n\<close>.)
\<close>

theorem getEpochLeader_round_robin:
  assumes "1 \<le> n" and "0 \<le> epoch"
  shows "(n_nodes s = n \<longrightarrow>
            getEpochLeader s epoch = Some (epoch mod n)
          \<and> getEpochLeader s (epoch + n) = getEpochLeader s epoch)
       \<and> (StreamletProtocol_init H now n = Inr p \<longrightarrow>
            (\<forall>r \<in> set (nodes p). getEpochLeader r epoch = Some (epoch mod n)))"
proof -
  have l: "getEpochLeader r e = Some (e mod n)" if "n_nodes r = n" "0 \<le> e" for r e
  proof -
    have "e smod n = e mod n"
      using that assms(1) by (auto simp: signed_modulo_int_def sgn_if)
    then show ?thesis
      using that assms(1) by (simp add: getEpochLeader_def)
  qed
  have "getEpochLeader s (epoch + n) = getEpochLeader s epoch" if "n_nodes s = n"
    using l [OF that, of epoch] l [OF that, of "epoch + n"] assms by simp
  moreover have "n_nodes r = n" if "StreamletProtocol_init H now n = Inr p" "r \<in> set (nodes p)" for r
    using that by (auto simp: StreamletProtocol_init_def StreamletNode_init_fields split: if_splits)
  ultimately show ?thesis
    using l assms(2) by blast
qed

theorem getEpochLeader_round_robin_witness:
  "(1::int) \<le> 4 \<and> (0::int) \<le> 6 \<and> n_nodes example_node = 4
   \<and> getEpochLeader example_node 6 = Some 2
   \<and> getEpochLeader example_node (6 + 4) = getEpochLeader example_node 6
   \<and> StreamletProtocol_init example_hash example_clock 4 = Inr example_protocol
   \<and> getEpochLeader (nodes example_protocol ! 0) 6 = Some 2
   \<and> getEpochLeader (nodes example_protocol ! 3) 6 = Some 2"
proof -
  have "nodes example_protocol ! 0 \<in> set (nodes example_protocol)"
    "nodes example_protocol ! 3 \<in> set (nodes example_protocol)"
    by (simp_all add: example_protocol_nodes)
  then show ?thesis
    using getEpochLeader_round_robin [of 4 6 example_node example_hash example_clock
        example_protocol]
    by (simp add: example_node_def StreamletNode_init_fields example_protocol_init)
qed

theorem getEpochLeader_negative_epoch:
  "\<not> (getEpochLeader example_node (- 1) = Some ((- 1) mod 4)
       \<and> getEpochLeader example_node (- 1 + 4) = getEpochLeader example_node (- 1))"
  by (simp add: getEpochLeader_def example_node_def StreamletNode_init_fields
      signed_modulo_int_def INT_MIN_def)

end
